theory Spec2Isabelle
  imports Main "HOL-Library.Word" "HOL-Library.Multiset"
begin

section \<open>Data model of package migrate\<close>

text \<open>
  Go's \<^verbatim>\<open>int\<close> is a 64-bit two's-complement integer on the platforms the driver
  runs on (\<^verbatim>\<open>strconv.ParseInt(s, 10, 64)\<close> followed by \<^verbatim>\<open>int(num)\<close> in sql.go relies
  on it). Subtraction wraps; \<^verbatim>\<open><\<close> and \<^verbatim>\<open>>\<close> compare the signed values (\<open>sint\<close>).
\<close>

type_synonym go_int = "64 word"

text \<open>
  Go \<^verbatim>\<open>error\<close> values. \<open>Errorf fmt n\<close> is \<^verbatim>\<open>errors.Errorf(fmt, n)\<close> with one integer
  argument; \<open>WithStack\<close> and \<open>WithMessagef\<close> are the wrappers of github.com/pkg/errors;
  \<open>External\<close> is an error made outside the repository (the database driver, the
  operating system, the body of a handler). A run-time panic of \<^verbatim>\<open>Run\<close> is the value
  \<open>Panic\<close>, so that it is a result like any other.
\<close>

datatype error =
    Errorf string go_int
  | ErrIndexLessDatabaseVersion
  | ErrFileType
  | ErrFileName
  | WithStack error
  | WithMessagef error string string
  | External string
  | Panic string

definition ErrDuplicateIndexFormat :: string where
  "ErrDuplicateIndexFormat = ''duplicate index is %d''"

definition ErrIndexGapLargeFormat :: string where
  "ErrIndexGapLargeFormat = ''index gap is larger than 1, current index is %d''"

definition ErrFindIndexDirtyFormat :: string where
  "ErrFindIndexDirtyFormat = ''find dirty index %d''"

text \<open>
  A \<^verbatim>\<open>Handler\<close> has an index and an action. The action is an arbitrary Go function
  \<^verbatim>\<open>func(ctx) error\<close>: here a transformer of the world \<open>'w\<close> it acts on (the migrated
  data; the context and its cancellation are part of that world), returning its error.
  The actions do not touch the schema table, which only \<^verbatim>\<open>Run\<close> writes.
\<close>

record 'w handler =
  GetIndex :: go_int
  Exec :: "'w \<Rightarrow> error option \<times> 'w"

text \<open>
  An \<^verbatim>\<open>Executor\<close> answers \<^verbatim>\<open>ListHandlers()\<close> with an error or a list of handlers. The
  orchestrator only sees that answer; the answer of one executor is the same at every
  query (goExecutor returns its fixed list, sqlExecutor memoises).
\<close>

datatype 'w executor = Executor (ListHandlers: "error + 'w handler list")

record 'w migrate =
  executors :: "'w executor list"
  handlers :: "'w handler list"

record schema =
  version :: go_int
  dirty :: bool

section \<open>The database holding the schema table\<close>

text \<open>
  The schema table is absent (\<open>None\<close>) or holds rows. Every interaction with the
  database (\<^verbatim>\<open>db.Exec\<close>, \<^verbatim>\<open>db.Query\<close>, \<^verbatim>\<open>rows.Scan\<close>) may fail: \<open>faults d n\<close> is the
  error of the \<open>n\<close>-th interaction, if it is to fail, and \<open>calls\<close> counts them.
\<close>

record database =
  table :: "schema list option"
  faults :: "nat \<Rightarrow> error option"
  calls :: nat

text \<open>The four statements \<^verbatim>\<open>Run\<close> passes to \<^verbatim>\<open>db.Exec\<close>, with their arguments.\<close>

datatype statement =
    CreateSchemaTable
  | UpdateSchema go_int
  | UpdateDirty go_int bool
  | InsertDefaultSchema

fun apply_statement :: "statement \<Rightarrow> schema list option \<Rightarrow> error + schema list option" where
  "apply_statement CreateSchemaTable None = Inr (Some [])"
| "apply_statement CreateSchemaTable (Some rows) = Inr (Some rows)"
| "apply_statement q None = Inl (External ''table does not exist'')"
| "apply_statement (UpdateSchema v) (Some rows) =
     Inr (Some (map (\<lambda>r. r\<lparr>version := v\<rparr>) rows))"
| "apply_statement (UpdateDirty v b) (Some rows) =
     Inr (Some (map (\<lambda>r. r\<lparr>version := v, dirty := b\<rparr>) rows))"
| "apply_statement InsertDefaultSchema (Some rows) =
     Inr (Some (rows @ [\<lparr>version = 0, dirty = False\<rparr>]))"

definition db_Exec :: "statement \<Rightarrow> database \<Rightarrow> error option \<times> database" where
  "db_Exec q d =
     (let d' = d\<lparr>calls := Suc (calls d)\<rparr> in
      case faults d (calls d) of
        Some e \<Rightarrow> (Some e, d')
      | None \<Rightarrow>
          (case apply_statement q (table d) of
             Inl e \<Rightarrow> (Some e, d')
           | Inr t \<Rightarrow> (None, d'\<lparr>table := t\<rparr>)))"

text \<open>\<^verbatim>\<open>db.Query(selectSchemaQuery)\<close>: the rows of the table, in order.\<close>

definition db_Query :: "database \<Rightarrow> (error + schema list) \<times> database" where
  "db_Query d =
     (let d' = d\<lparr>calls := Suc (calls d)\<rparr> in
      case faults d (calls d) of
        Some e \<Rightarrow> (Inl e, d')
      | None \<Rightarrow>
          (case table d of
             None \<Rightarrow> (Inl (External ''table does not exist''), d')
           | Some rows \<Rightarrow> (Inr rows, d')))"

definition rows_Scan :: "schema \<Rightarrow> database \<Rightarrow> (error + schema) \<times> database" where
  "rows_Scan r d =
     (let d' = d\<lparr>calls := Suc (calls d)\<rparr> in
      case faults d (calls d) of
        Some e \<Rightarrow> (Inl e, d')
      | None \<Rightarrow> (Inr r, d'))"

section \<open>The orchestrator\<close>

subsection \<open>initHandlers\<close>

text \<open>
  Step 1 of \<^verbatim>\<open>initHandlers\<close>: every executor's handlers are appended to \<^verbatim>\<open>m.handlers\<close>;
  the first failing executor ends the loop, and what was appended before it stays.
\<close>

fun collect :: "'w executor list \<Rightarrow> 'w handler list \<Rightarrow> error option \<times> 'w handler list" where
  "collect [] hs = (None, hs)"
| "collect (e # es) hs =
     (case ListHandlers e of
        Inl err \<Rightarrow> (Some err, hs)
      | Inr l \<Rightarrow> collect es (hs @ l))"

text \<open>
  Step 2: \<^verbatim>\<open>sort.Slice\<close> by index, ascending in the signed order. \<^verbatim>\<open>sort.Slice\<close> leaves
  the order of handlers with equal indices open; here they keep their order. Step 3
  rejects every list with two equal indices, so no action ever runs on such a list.
\<close>

definition sort_Slice :: "'w handler list \<Rightarrow> 'w handler list" where
  "sort_Slice hs = sort_key (\<lambda>h. sint (GetIndex h)) hs"

text \<open>Step 3: the walk over adjacent pairs; the subtraction is Go's, on 64 bits.\<close>

fun check_index :: "'w handler list \<Rightarrow> error option" where
  "check_index (h # h' # hs) =
     (let result = GetIndex h' - GetIndex h in
      if result = 1 then check_index (h' # hs)
      else if result = 0 then Some (Errorf ErrDuplicateIndexFormat (GetIndex h))
      else Some (Errorf ErrIndexGapLargeFormat (GetIndex h)))"
| "check_index hs = None"

definition initHandlers :: "'w migrate \<Rightarrow> error option \<times> 'w migrate" where
  "initHandlers m =
     (case collect (executors m) (handlers m) of
        (Some err, hs) \<Rightarrow> (Some err, m\<lparr>handlers := hs\<rparr>)
      | (None, hs) \<Rightarrow>
          (let hs' = sort_Slice hs in (check_index hs', m\<lparr>handlers := hs'\<rparr>)))"

subsection \<open>initAndGetSchema\<close>

definition initAndGetSchema :: "database \<Rightarrow> (error + schema) \<times> database" where
  "initAndGetSchema d =
     (case db_Query d of
        (Inl err, d1) \<Rightarrow> (Inl (WithStack err), d1)
      | (Inr rows, d1) \<Rightarrow>
          (case rows of
             [] \<Rightarrow>
               (case db_Exec InsertDefaultSchema d1 of
                  (Some err, d2) \<Rightarrow> (Inl (WithStack err), d2)
                | (None, d2) \<Rightarrow> (Inr \<lparr>version = 0, dirty = False\<rparr>, d2))
           | r # _ \<Rightarrow>
               (case rows_Scan r d1 of
                  (Inl err, d2) \<Rightarrow> (Inl (WithStack err), d2)
                | (Inr sche, d2) \<Rightarrow>
                    if dirty sche
                    then (Inl (Errorf ErrFindIndexDirtyFormat (version sche)), d2)
                    else (Inr sche, d2))))"

subsection \<open>Run\<close>

text \<open>
  What \<^verbatim>\<open>Run\<close> works on besides the orchestrator: the database, the world of the
  actions, and a log of the loop (which actions were invoked, with their results, and
  which statements the loop sent to the database, with theirs). The log is not in the
  source; it records the order of the calls the source makes.
\<close>

datatype event =
    Executed go_int "error option"
  | Wrote statement "error option"

record 'w state =
  db :: database
  world :: 'w
  events :: "event list"

text \<open>Step 4 of \<^verbatim>\<open>Run\<close> from position \<^verbatim>\<open>idx\<close> on: the handlers \<^verbatim>\<open>m.handlers[idx:]\<close>.\<close>

fun exec_loop :: "'w handler list \<Rightarrow> 'w state \<Rightarrow> error option \<times> 'w state" where
  "exec_loop [] s = (None, s)"
| "exec_loop (h # hs) s =
     (case Exec h (world s) of
        (Some err, w') \<Rightarrow>
          (case db_Exec (UpdateDirty (GetIndex h) True) (db s) of
             (Some innerErr, d') \<Rightarrow>
               (Some (WithStack innerErr),
                s\<lparr>db := d', world := w',
                  events := events s @ [Executed (GetIndex h) (Some err),
                    Wrote (UpdateDirty (GetIndex h) True) (Some innerErr)]\<rparr>)
           | (None, d') \<Rightarrow>
               (Some err,
                s\<lparr>db := d', world := w',
                  events := events s @ [Executed (GetIndex h) (Some err),
                    Wrote (UpdateDirty (GetIndex h) True) None]\<rparr>))
      | (None, w') \<Rightarrow>
          (case db_Exec (UpdateSchema (GetIndex h)) (db s) of
             (Some err, d') \<Rightarrow>
               (Some (WithStack err),
                s\<lparr>db := d', world := w',
                  events := events s @ [Executed (GetIndex h) None,
                    Wrote (UpdateSchema (GetIndex h)) (Some err)]\<rparr>)
           | (None, d') \<Rightarrow>
               exec_loop hs
                 (s\<lparr>db := d', world := w',
                   events := events s @ [Executed (GetIndex h) None,
                     Wrote (UpdateSchema (GetIndex h)) None]\<rparr>)))"

text \<open>
  \<^verbatim>\<open>Run\<close>. The loop starts at position \<^verbatim>\<open>schema.version\<close>; with a negative version the
  first \<^verbatim>\<open>m.handlers[idx]\<close> is out of range and Go panics.
\<close>

definition Run :: "'w migrate \<Rightarrow> 'w state \<Rightarrow> error option \<times> 'w migrate \<times> 'w state" where
  "Run m s =
     (case initHandlers m of
        (Some err, m') \<Rightarrow> (Some err, m', s)
      | (None, m') \<Rightarrow>
          (case db_Exec CreateSchemaTable (db s) of
             (Some err, d1) \<Rightarrow> (Some (WithStack err), m', s\<lparr>db := d1\<rparr>)
           | (None, d1) \<Rightarrow>
               (case initAndGetSchema d1 of
                  (Inl err, d2) \<Rightarrow> (Some err, m', s\<lparr>db := d2\<rparr>)
                | (Inr sche, d2) \<Rightarrow>
                    if int (length (handlers m')) < sint (version sche)
                    then (Some ErrIndexLessDatabaseVersion, m', s\<lparr>db := d2\<rparr>)
                    else if sint (version sche) < 0
                    then (Some (Panic ''index out of range''), m', s\<lparr>db := d2\<rparr>)
                    else
                      (case exec_loop (drop (nat (sint (version sche))) (handlers m'))
                              (s\<lparr>db := d2\<rparr>) of
                         (err, s') \<Rightarrow> (err, m', s')))))"

definition executed :: "event list \<Rightarrow> go_int list" where
  "executed evs = concat (map (\<lambda>ev. case ev of Executed i r \<Rightarrow> [i] | Wrote q r \<Rightarrow> []) evs)"

section \<open>Package concrete: the executors\<close>

subsection \<open>goExecutor\<close>

text \<open>\<^verbatim>\<open>ListHandlers\<close> of Go returns the list and the error; \<open>None\<close> is \<^verbatim>\<open>nil\<close>.\<close>

definition NewGoHandler :: "go_int \<Rightarrow> ('w \<Rightarrow> error option \<times> 'w) \<Rightarrow> 'w handler" where
  "NewGoHandler i f = \<lparr>GetIndex = i, Exec = f\<rparr>"

definition goExecutor_ListHandlers :: "'w handler list \<Rightarrow> error option \<times> 'w handler list" where
  "goExecutor_ListHandlers hs = (None, hs)"

subsection \<open>sqlExecutor\<close>

definition sqlExt :: string where
  "sqlExt = ''.sql''"

definition defaultSourceDir :: string where
  "defaultSourceDir = ''./migration''"

definition sqlErrorFmt :: string where
  "sqlErrorFmt = ''error sql is : %s''"

text \<open>
  The file system as sql.go reads it: \<^verbatim>\<open>os.ReadDir(dir)\<close>, and for a file of a directory
  (\<^verbatim>\<open>os.Open(path.Join(dir, name))\<close>) either the error of \<^verbatim>\<open>Open\<close> or the bytes that
  reach the buffer together with the result of \<^verbatim>\<open>Close\<close>.
\<close>

record dir_entry =
  Name :: string
  IsDir :: bool

record filesystem =
  ReadDir :: "string \<Rightarrow> error + dir_entry list"
  Open :: "string \<Rightarrow> string \<Rightarrow> error + string \<times> error option"

text \<open>
  The connection a \<^verbatim>\<open>sqlHandler\<close> runs its query on: \<^verbatim>\<open>Begin\<close> may fail; \<open>tx_Exec\<close>
  gives the error of \<^verbatim>\<open>tx.Exec\<close> and the data after the rollback or the commit that
  follows it.
\<close>

record 'w sql_DB =
  Begin :: "'w \<Rightarrow> error option"
  tx_Exec :: "string \<Rightarrow> 'w \<Rightarrow> error option \<times> 'w"

definition sqlHandler_Exec :: "'w sql_DB \<Rightarrow> string \<Rightarrow> 'w \<Rightarrow> error option \<times> 'w" where
  "sqlHandler_Exec sdb query w =
     (case Begin sdb w of
        Some err \<Rightarrow> (Some (WithStack err), w)
      | None \<Rightarrow>
          (case tx_Exec sdb query w of
             (Some err, w') \<Rightarrow> (Some (WithMessagef err sqlErrorFmt query), w')
           | (None, w') \<Rightarrow> (None, w')))"

record 'w sqlExecutor =
  sourceDir :: string
  sql_db :: "'w sql_DB"
  sql_handlers :: "'w handler list"

definition NewSQLExecutor :: "'w sql_DB \<Rightarrow> string \<Rightarrow> 'w sqlExecutor" where
  "NewSQLExecutor sdb dir =
     \<lparr>sourceDir = (if dir = [] then defaultSourceDir else dir), sql_db = sdb,
      sql_handlers = []\<rparr>"

text \<open>
  \<^verbatim>\<open>path.Ext\<close>: scanning from the end, the suffix from the last dot of the last
  slash-separated element; empty without a dot.
\<close>

fun ext_scan :: "string \<Rightarrow> string \<Rightarrow> string" where
  "ext_scan [] acc = []"
| "ext_scan (c # cs) acc =
     (if c = CHR ''/'' then []
      else if c = CHR ''.'' then c # acc
      else ext_scan cs (c # acc))"

definition path_Ext :: "string \<Rightarrow> string" where
  "path_Ext p = ext_scan (rev p) []"

text \<open>
  \<^verbatim>\<open>strconv.ParseInt(s, 10, 64)\<close>: an optional sign, then decimal digits only, at least
  one; a value outside the 64-bit signed range is an error too. \<open>None\<close> is any error.
\<close>

fun parse_digits :: "string \<Rightarrow> int \<Rightarrow> int option" where
  "parse_digits [] acc = Some acc"
| "parse_digits (c # cs) acc =
     (let n = (of_char c :: int) in
      if 48 \<le> n \<and> n \<le> 57 then parse_digits cs (acc * 10 + (n - 48)) else None)"

definition ParseUint :: "string \<Rightarrow> int option" where
  "ParseUint s = (if s = [] then None else parse_digits s 0)"

definition ParseInt :: "string \<Rightarrow> go_int option" where
  "ParseInt s =
     (if s = [] then None
      else
        (let neg = (hd s = CHR ''-'');
             s' = (if hd s = CHR ''+'' \<or> hd s = CHR ''-'' then tl s else s)
         in case ParseUint s' of
              None \<Rightarrow> None
            | Some un \<Rightarrow>
                if \<not> neg \<and> 2 ^ 63 \<le> un then None
                else if neg \<and> 2 ^ 63 < un then None
                else Some (if neg then - word_of_int un else word_of_int un)))"

record fileInfo =
  index :: go_int
  fileName :: string
  ext :: string

text \<open>The loop of \<^verbatim>\<open>getFilesByDir\<close>; \<^verbatim>\<open>strings.Split(fileName, "_")[0]\<close> is the prefix before the first underscore.\<close>

fun getFiles_loop :: "dir_entry list \<Rightarrow> fileInfo list \<Rightarrow> error + fileInfo list" where
  "getFiles_loop [] fileInfos = Inr fileInfos"
| "getFiles_loop (d # ds) fileInfos =
     (if IsDir d then Inl ErrFileType
      else
        (let fileName = Name d; ext = path_Ext fileName in
         if ext \<noteq> sqlExt then getFiles_loop ds fileInfos
         else
           (case ParseInt (takeWhile (\<lambda>c. c \<noteq> CHR ''_'') fileName) of
              None \<Rightarrow> Inl ErrFileName
            | Some num \<Rightarrow>
                getFiles_loop ds
                  (fileInfos @ [\<lparr>index = num, fileName = fileName, ext = ext\<rparr>]))))"

definition getFilesByDir :: "filesystem \<Rightarrow> string \<Rightarrow> error + fileInfo list" where
  "getFilesByDir fs dir =
     (case ReadDir fs dir of
        Inl err \<Rightarrow> Inl err
      | Inr dirs \<Rightarrow> getFiles_loop dirs [])"

text \<open>The loop of \<^verbatim>\<open>sqlExecutor.initHandlers\<close> over the files: one \<^verbatim>\<open>sqlHandler\<close> each.\<close>

fun read_files ::
  "filesystem \<Rightarrow> 'w sqlExecutor \<Rightarrow> fileInfo list \<Rightarrow> 'w handler list \<Rightarrow> error + 'w handler list" where
  "read_files fs s [] hs = Inr hs"
| "read_files fs s (f # files) hs =
     (case Open fs (sourceDir s) (fileName f) of
        Inl err \<Rightarrow> Inl (WithStack err)
      | Inr (content, closed) \<Rightarrow>
          (case closed of
             Some err \<Rightarrow> Inl (WithStack err)
           | None \<Rightarrow>
               read_files fs s files
                 (hs @ [\<lparr>GetIndex = index f, Exec = sqlHandler_Exec (sql_db s) content\<rparr>])))"

text \<open>
  \<^verbatim>\<open>sqlExecutor.initHandlers\<close>. When \<^verbatim>\<open>getFilesByDir\<close> fails the source has
  \<^verbatim>\<open>return nil\<close>; the other failures return their error.
\<close>

definition sqlExecutor_initHandlers ::
  "filesystem \<Rightarrow> 'w sqlExecutor \<Rightarrow> error option \<times> 'w sqlExecutor" where
  "sqlExecutor_initHandlers fs s =
     (case getFilesByDir fs (sourceDir s) of
        Inl err \<Rightarrow> (None, s)
      | Inr files \<Rightarrow>
          (case read_files fs s files [] of
             Inl err \<Rightarrow> (Some err, s)
           | Inr hs \<Rightarrow> (None, s\<lparr>sql_handlers := hs\<rparr>)))"

text \<open>\<^verbatim>\<open>errors.WithStack(nil)\<close> is \<^verbatim>\<open>nil\<close>.\<close>

definition sqlExecutor_ListHandlers ::
  "filesystem \<Rightarrow> 'w sqlExecutor \<Rightarrow> (error option \<times> 'w handler list) \<times> 'w sqlExecutor" where
  "sqlExecutor_ListHandlers fs s =
     (if length (sql_handlers s) \<noteq> 0 then ((None, sql_handlers s), s)
      else
        (case sqlExecutor_initHandlers fs s of
           (err, s') \<Rightarrow> ((map_option WithStack err, sql_handlers s'), s')))"

text \<open>
  What \<^verbatim>\<open>migrate.initHandlers\<close> makes of an answer \<^verbatim>\<open>handlers, err := e.ListHandlers()\<close>:
  the error when there is one, the list otherwise.
\<close>

definition answer :: "error option \<times> 'w handler list \<Rightarrow> 'w executor" where
  "answer r = (case r of (Some err, hs) \<Rightarrow> Executor (Inl err) | (None, hs) \<Rightarrow> Executor (Inr hs))"

section \<open>Notions used in the statements\<close>

text \<open>The indices of a list of handlers as Go compares them: their signed values.\<close>

definition signed_indices :: "'w handler list \<Rightarrow> int list" where
  "signed_indices hs = map (\<lambda>h. sint (GetIndex h)) hs"

text \<open>An executor whose \<^verbatim>\<open>ListHandlers\<close> returns no error, and what such executors list.\<close>

fun no_failure :: "'w executor \<Rightarrow> bool" where
  "no_failure (Executor (Inr l)) = True"
| "no_failure (Executor (Inl err)) = False"

definition listed :: "'w executor list \<Rightarrow> 'w handler list" where
  "listed es = concat (map (\<lambda>e. case ListHandlers e of Inl err \<Rightarrow> [] | Inr l \<Rightarrow> l) es)"

text \<open>The gap between the handler at position \<open>i\<close> and the next one, as integers.\<close>

definition gap :: "'w handler list \<Rightarrow> nat \<Rightarrow> int" where
  "gap hs i = sint (GetIndex (hs ! Suc i)) - sint (GetIndex (hs ! i))"

text \<open>
  The log of a loop in which every action succeeds and every version is written: for
  each index, the action and the update of \<^verbatim>\<open>version\<close>.
\<close>

definition advances :: "go_int list \<Rightarrow> event list" where
  "advances is = concat (map (\<lambda>i. [Executed i None, Wrote (UpdateSchema i) None]) is)"

text \<open>The integers an error value carries, through its wrappers.\<close>

fun carried_indices :: "error \<Rightarrow> go_int list" where
  "carried_indices (Errorf fmt n) = [n]"
| "carried_indices (WithStack e) = carried_indices e"
| "carried_indices (WithMessagef e fmt arg) = carried_indices e"
| "carried_indices e = []"

section \<open>Concrete inputs\<close>

text \<open>Actions on a world that counts the actions that completed.\<close>

definition ok_action :: "nat \<Rightarrow> error option \<times> nat" where
  "ok_action w = (None, Suc w)"

definition bad_action :: "nat \<Rightarrow> error option \<times> nat" where
  "bad_action w = (Some (External ''boom''), w)"

definition ok_unit :: "go_int \<Rightarrow> nat handler" where
  "ok_unit i = NewGoHandler i ok_action"

definition bad_unit :: "go_int \<Rightarrow> nat handler" where
  "bad_unit i = NewGoHandler i bad_action"

definition no_faults :: "nat \<Rightarrow> error option" where
  "no_faults n = None"

definition fault_at :: "nat \<Rightarrow> nat \<Rightarrow> error option" where
  "fault_at k n = (if n = k then Some (External ''connection lost'') else None)"

definition fresh_db :: database where
  "fresh_db = \<lparr>table = None, faults = no_faults, calls = 0\<rparr>"

definition db_with :: "schema list \<Rightarrow> database" where
  "db_with rows = \<lparr>table = Some rows, faults = no_faults, calls = 0\<rparr>"

definition start :: "database \<Rightarrow> nat state" where
  "start d = \<lparr>db = d, world = 0, events = []\<rparr>"

definition orchestrator :: "nat handler list list \<Rightarrow> nat migrate" where
  "orchestrator ls = \<lparr>executors = map (\<lambda>l. Executor (Inr l)) ls, handlers = []\<rparr>"

text \<open>A source directory that cannot be read, and a connection on which every query succeeds.\<close>

definition no_dir :: "string \<Rightarrow> error + dir_entry list" where
  "no_dir d = Inl (External ''open: no such file or directory'')"

definition no_file :: "string \<Rightarrow> string \<Rightarrow> error + string \<times> error option" where
  "no_file d n = Inl (External ''open: no such file or directory'')"

definition missing :: filesystem where
  "missing = \<lparr>ReadDir = no_dir, Open = no_file\<rparr>"

definition begin_ok :: "nat \<Rightarrow> error option" where
  "begin_ok w = None"

definition query_ok :: "string \<Rightarrow> nat \<Rightarrow> error option \<times> nat" where
  "query_ok q w = (None, Suc w)"

definition conn :: "nat sql_DB" where
  "conn = \<lparr>Begin = begin_ok, tx_Exec = query_ok\<rparr>"

section \<open>Unfolding the definitions\<close>

lemmas example_defs = orchestrator_def start_def fresh_db_def db_with_def no_faults_def fault_at_def
  ok_unit_def bad_unit_def ok_action_def bad_action_def NewGoHandler_def

lemmas Run_defs = Run_def initHandlers_def sort_Slice_def db_Exec_def initAndGetSchema_def
  db_Query_def rows_Scan_def executed_def

section \<open>Signed 64-bit indices\<close>

lemma sint_succ: "sint (a::64 word) \<noteq> 2^63 - 1 \<Longrightarrow> sint (a + 1) = sint a + 1"
proof -
  assume h: "sint a \<noteq> 2^63 - 1"
  have "sint a < 2^63" using sint_lt [of a] by simp
  with h have lt: "sint a + 1 < 2^63" by simp
  have ge: "- (2^63) \<le> sint a + 1" using sint_ge [of a] by simp
  have "sint (a + 1) = signed_take_bit 63 (sint a + 1)"
    by (simp add: sint_word_ariths)
  also have "\<dots> = sint a + 1" using lt ge by (simp add: signed_take_bit_int_eq_self)
  finally show ?thesis .
qed

lemma sint_max_succ: "sint (a::64 word) = 2^63 - 1 \<Longrightarrow> sint (a + 1) = - (2^63)"
proof -
  assume h: "sint a = 2^63 - 1"
  have "a = word_of_int (sint a)" by simp
  then have "a = word_of_int (2^63 - 1)" using h by simp
  then show ?thesis by simp
qed

lemma gap_one: "sint (a::64 word) \<le> sint b \<Longrightarrow> (b - a = 1) = (sint b = sint a + 1)"
proof
  assume le: "sint a \<le> sint b" and d: "b - a = 1"
  then have b: "b = a + 1" by (simp add: algebra_simps)
  show "sint b = sint a + 1"
  proof (cases "sint a = 2^63 - 1")
    case True
    then have "sint b = - (2^63)" using b sint_max_succ by simp
    with le True show ?thesis by simp
  next
    case False
    then show ?thesis using b sint_succ by simp
  qed
next
  assume "sint b = sint a + 1"
  then have "word_of_int (sint b) = (word_of_int (sint a + 1) :: 64 word)" by simp
  then have "b = a + 1" by simp
  then show "b - a = 1" by simp
qed

section \<open>Collecting, sorting and checking the handlers\<close>

lemma collect_listed:
  "\<forall>e\<in>set es. no_failure e \<Longrightarrow> collect es hs = (None, hs @ listed es)"
proof (induction es arbitrary: hs)
  case Nil
  then show ?case by (simp add: listed_def)
next
  case (Cons e es)
  then obtain l where e: "e = Executor (Inr l)"
    by (cases e rule: no_failure.cases) auto
  with Cons show ?case by (simp add: listed_def)
qed

lemma signed_indices_sort: "signed_indices (sort_Slice hs) = sort (signed_indices hs)"
proof -
  have "sort (signed_indices hs) = signed_indices (sort_Slice hs)"
    by (rule properties_for_sort) (simp_all add: signed_indices_def sort_Slice_def)
  then show ?thesis by simp
qed

lemma check_index_sorted:
  "sorted (signed_indices hs) \<Longrightarrow>
   (check_index hs = None) =
   (signed_indices hs = (case hs of [] \<Rightarrow> [] | h # _ \<Rightarrow> [sint (GetIndex h) .. sint (GetIndex h) + int (length hs) - 1]))"
proof (induction hs rule: check_index.induct)
  case (1 h h' hs)
  let ?a = "sint (GetIndex h)" and ?b = "sint (GetIndex h')"
  from "1.prems" have le: "?a \<le> ?b" and srt: "sorted (signed_indices (h' # hs))"
    by (simp_all add: signed_indices_def)
  have up: "[?a .. ?a + int (length (h # h' # hs)) - 1] = ?a # [?a + 1 .. ?a + 1 + int (length (h' # hs)) - 1]"
    by (subst upto_rec1) (simp_all add: algebra_simps)
  show ?case
  proof (cases "GetIndex h' - GetIndex h = 1")
    case True
    then have eq: "?b = ?a + 1" using gap_one [OF le] by simp
    from True "1.IH" [OF refl True srt] have
      "(check_index (h # h' # hs) = None) =
       (signed_indices (h' # hs) = [?b .. ?b + int (length (h' # hs)) - 1])"
      by simp
    also have "\<dots> = (signed_indices (h # h' # hs) = [?a .. ?a + int (length (h # h' # hs)) - 1])"
      unfolding up eq by (simp add: signed_indices_def)
    finally show ?thesis by simp
  next
    case False
    then have ne: "?b \<noteq> ?a + 1" using gap_one [OF le] by simp
    have "check_index (h # h' # hs) \<noteq> None" using False by (simp add: Let_def)
    moreover have "signed_indices (h # h' # hs) \<noteq> [?a .. ?a + int (length (h # h' # hs)) - 1]"
    proof
      assume "signed_indices (h # h' # hs) = [?a .. ?a + int (length (h # h' # hs)) - 1]"
      then have "signed_indices (h # h' # hs) ! 1 = [?a .. ?a + int (length (h # h' # hs)) - 1] ! 1"
        by simp
      then show False using ne by (simp add: signed_indices_def)
    qed
    ultimately show ?thesis by simp
  qed
qed (simp_all add: signed_indices_def)

lemma check_index_sort_Slice:
  "(check_index (sort_Slice hs) = None) =
   (\<exists>a. sort (signed_indices hs) = [a .. a + int (length hs) - 1])"
proof -
  define xs where "xs = sort_Slice hs"
  have keys: "signed_indices xs = sort (signed_indices hs)"
    by (simp add: xs_def signed_indices_sort)
  have len: "length xs = length hs"
    by (simp add: xs_def sort_Slice_def)
  have srt: "sorted (signed_indices xs)"
    by (simp add: keys)
  have "(check_index xs = None) = (\<exists>a. signed_indices xs = [a .. a + int (length xs) - 1])"
  proof (cases xs)
    case Nil
    then show ?thesis by (simp add: signed_indices_def)
  next
    case (Cons h rest)
    let ?a = "sint (GetIndex h)"
    have up: "[a .. a + int (length xs) - 1] = a # [a + 1 .. a + int (length xs) - 1]" for a
      using Cons by (subst upto_rec1) simp_all
    have "(check_index xs = None) = (signed_indices xs = [?a .. ?a + int (length xs) - 1])"
      using check_index_sorted [OF srt] Cons by simp
    also have "\<dots> = (\<exists>a. signed_indices xs = [a .. a + int (length xs) - 1])"
    proof
      assume "signed_indices xs = [?a .. ?a + int (length xs) - 1]"
      then show "\<exists>a. signed_indices xs = [a .. a + int (length xs) - 1]" by blast
    next
      assume "\<exists>a. signed_indices xs = [a .. a + int (length xs) - 1]"
      then obtain a where a: "signed_indices xs = [a .. a + int (length xs) - 1]" by blast
      then have "signed_indices xs = a # [a + 1 .. a + int (length xs) - 1]"
        using up by simp
      then have "a = ?a" using Cons by (simp add: signed_indices_def)
      with a show "signed_indices xs = [?a .. ?a + int (length xs) - 1]" by simp
    qed
    finally show ?thesis .
  qed
  then show ?thesis unfolding keys len unfolding xs_def .
qed

lemma check_index_first_bad:
  "Suc i < length xs \<Longrightarrow> \<forall>j<i. gap xs j = 1 \<Longrightarrow>
   (gap xs i = 0 \<longrightarrow> check_index xs = Some (Errorf ErrDuplicateIndexFormat (GetIndex (xs ! i)))) \<and>
   (1 < gap xs i \<longrightarrow> check_index xs = Some (Errorf ErrIndexGapLargeFormat (GetIndex (xs ! i))))"
proof (induction i arbitrary: xs)
  case 0
  then obtain h h' rest where xs: "xs = h # h' # rest"
    by (cases xs; cases "tl xs") auto
  show ?case
  proof (intro conjI impI)
    assume "gap xs 0 = 0"
    then have "GetIndex h' = GetIndex h" by (simp add: gap_def xs signed_word_eqI)
    then show "check_index xs = Some (Errorf ErrDuplicateIndexFormat (GetIndex (xs ! 0)))"
      by (simp add: xs)
  next
    assume g: "1 < gap xs 0"
    then have le: "sint (GetIndex h) \<le> sint (GetIndex h')" by (simp add: gap_def xs)
    from g have "GetIndex h' - GetIndex h \<noteq> 1" using gap_one [OF le] by (simp add: gap_def xs)
    moreover from g have "GetIndex h' - GetIndex h \<noteq> 0" by (auto simp: gap_def xs)
    ultimately show "check_index xs = Some (Errorf ErrIndexGapLargeFormat (GetIndex (xs ! 0)))"
      by (simp add: xs)
  qed
next
  case (Suc i)
  then obtain h h' rest where xs: "xs = h # h' # rest"
    by (cases xs; cases "tl xs") auto
  from Suc.prems(2) have "gap xs 0 = 1" by simp
  then have one: "GetIndex h' - GetIndex h = 1"
    using gap_one [of "GetIndex h" "GetIndex h'"] by (simp add: gap_def xs)
  have len: "Suc i < length (h' # rest)" using Suc.prems(1) by (simp add: xs)
  have "gap (h' # rest) j = gap xs (Suc j)" for j by (simp add: gap_def xs)
  with Suc.prems(2) have pre: "\<forall>j<i. gap (h' # rest) j = 1" by auto
  from Suc.IH [OF len pre] one show ?case by (simp add: xs gap_def)
qed

lemma all_less_2: "(\<forall>j<2::nat. P j) = (P 0 \<and> P 1)"
  by (auto simp: less_Suc_eq numeral_2_eq_2)

lemma all_less_1: "(\<forall>j<1::nat. P j) = P 0"
  by auto

lemma sint_of_nat_small: "n < 2 ^ 63 \<Longrightarrow> sint (word_of_nat n :: 64 word) = int n"
proof -
  assume "n < 2 ^ 63"
  then have "int n < 2 ^ 63" by (metis of_nat_less_iff of_nat_numeral of_nat_power)
  then show ?thesis
    by (simp add: signed_of_nat signed_take_bit_int_eq_self)
qed

lemma signed_one_to_N:
  assumes "N < 2 ^ 63"
  shows "map sint (map word_of_nat [1..<Suc N] :: 64 word list) = map int [1..<Suc N]"
proof -
  have "sint (word_of_nat k :: 64 word) = int k" if "k \<in> set [1..<Suc N]" for k
  proof (rule sint_of_nat_small)
    from that have "k \<le> N" by (simp del: upt_Suc)
    with assms show "k < 2 ^ 63" by simp
  qed
  then show ?thesis by (simp del: upt_Suc)
qed



lemma sort_Slice_one_to_N:
  assumes "mset (map GetIndex hs) = mset (map word_of_nat [1..<Suc N])" and "N < 2 ^ 63"
  shows "map GetIndex (sort_Slice hs) = map word_of_nat [1..<Suc N]"
proof -
  have "mset (signed_indices hs) = image_mset sint (mset (map GetIndex hs))"
    by (simp add: signed_indices_def multiset.map_comp comp_def)
  also have "\<dots> = image_mset sint (mset (map word_of_nat [1..<Suc N] :: 64 word list))"
    unfolding assms(1) ..
  also have "\<dots> = mset (map sint (map word_of_nat [1..<Suc N] :: 64 word list))"
    by (simp only: mset_map)
  also have "\<dots> = mset (map int [1..<Suc N])"
    unfolding signed_one_to_N [OF assms(2)] ..
  finally have m: "mset (map int [1..<Suc N]) = mset (signed_indices hs)" by simp
  have "sorted (map int [1..<Suc N])"
    by (simp add: sorted_map del: upt_Suc)
  with m have "sort (signed_indices hs) = map int [1..<Suc N]"
    by (rule properties_for_sort)
  then have "signed_indices (sort_Slice hs) = map int [1..<Suc N]"
    by (simp add: signed_indices_sort)
  then have "map word_of_int (signed_indices (sort_Slice hs)) = (map word_of_int (map int [1..<Suc N]) :: 64 word list)"
    by (simp only:)
  then show ?thesis by (simp add: signed_indices_def comp_def del: upt_Suc)
qed



lemma map_int_upt: "map int [a..<a + n] = [int a .. int a + int n - 1]"
proof (induction n)
  case 0
  then show ?case by simp
next
  case (Suc n)
  have "[int a .. int a + int (Suc n) - 1] = [int a .. int a + int n - 1] @ [int a + int n]"
    by (subst upto_rec2) simp_all
  with Suc show ?case by simp
qed

lemma check_index_one_to_N:
  assumes "mset (map GetIndex hs) = mset (map word_of_nat [1..<Suc N])" and "N < 2 ^ 63"
  shows "check_index (sort_Slice hs) = None"
proof -
  have "length (map GetIndex hs) = length (map word_of_nat [1..<Suc N] :: 64 word list)"
    using assms(1) by (rule mset_eq_length)
  then have len: "length hs = N" by (simp del: upt_Suc)
  have "map sint (map GetIndex (sort_Slice hs)) = map int [1..<Suc N]"
    unfolding sort_Slice_one_to_N [OF assms] by (rule signed_one_to_N [OF assms(2)])
  then have "signed_indices (sort_Slice hs) = map int [1..<1 + N]"
    by (simp add: signed_indices_def comp_def del: upt_Suc)
  then have "sort (signed_indices hs) = [1 .. 1 + int (length hs) - 1]"
    unfolding map_int_upt signed_indices_sort len by simp
  then show ?thesis unfolding check_index_sort_Slice by blast
qed

section \<open>The execution loop\<close>





lemma advances_simps:
  "advances [] = []"
  "advances (i # is) = Executed i None # Wrote (UpdateSchema i) None # advances is"
  by (simp_all add: advances_def)

lemma exec_loop_success:
  "\<forall>h\<in>set hs. \<forall>w. fst (Exec h w) = None \<Longrightarrow> \<forall>n. faults (db s) n = None \<Longrightarrow>
   table (db s) = Some rows \<Longrightarrow>
   \<exists>s'. exec_loop hs s = (None, s') \<and>
     table (db s') = Some (if hs = [] then rows else map (\<lambda>r. r\<lparr>version := GetIndex (last hs)\<rparr>) rows) \<and>
     events s' = events s @ advances (map GetIndex hs)"
proof (induction hs arbitrary: s rows)
  case Nil
  then show ?case by (simp add: advances_simps)
next
  case (Cons h hs)
  obtain a w' where ex: "Exec h (world s) = (a, w')" by (cases "Exec h (world s)")
  with Cons.prems(1) have a: "a = None" by (metis fst_conv list.set_intros(1))
  let ?d' = "(db s)\<lparr>calls := Suc (calls (db s)), table := Some (map (\<lambda>r. r\<lparr>version := GetIndex h\<rparr>) rows)\<rparr>"
  have w: "db_Exec (UpdateSchema (GetIndex h)) (db s) = (None, ?d')"
    using Cons.prems(2,3) by (simp add: db_Exec_def)
  let ?s2 = "s\<lparr>db := ?d', world := w',
      events := events s @ [Executed (GetIndex h) None, Wrote (UpdateSchema (GetIndex h)) None]\<rparr>"
  have step: "exec_loop (h # hs) s = exec_loop hs ?s2"
    using ex a w by simp
  have p1: "\<forall>h\<in>set hs. \<forall>w. fst (Exec h w) = None" using Cons.prems(1) by simp
  have p2: "\<forall>n. faults (db ?s2) n = None" using Cons.prems(2) by simp
  have p3: "table (db ?s2) = Some (map (\<lambda>r. r\<lparr>version := GetIndex h\<rparr>) rows)" by simp
  from Cons.IH [OF p1 p2 p3] obtain s' where
    r: "exec_loop hs ?s2 = (None, s')"
    and t: "table (db s') = Some (if hs = [] then map (\<lambda>r. r\<lparr>version := GetIndex h\<rparr>) rows
        else map (\<lambda>r. r\<lparr>version := GetIndex (last hs)\<rparr>) (map (\<lambda>r. r\<lparr>version := GetIndex h\<rparr>) rows))"
    and e: "events s' = events ?s2 @ advances (map GetIndex hs)"
    by blast
  from t have "table (db s') = Some (map (\<lambda>r. r\<lparr>version := GetIndex (last (h # hs))\<rparr>) rows)"
    by (simp add: comp_def)
  moreover from e have "events s' = events s @ advances (map GetIndex (h # hs))"
    by (simp add: advances_simps)
  ultimately show ?case using step r by simp
qed

section \<open>Run as a whole\<close>


lemma collect_first_failure:
  "\<forall>e\<in>set es1. no_failure e \<Longrightarrow>
   collect (es1 @ Executor (Inl err) # es2) hs = (Some err, hs @ listed es1)"
proof (induction es1 arbitrary: hs)
  case Nil
  then show ?case by (simp add: listed_def)
next
  case (Cons e es1)
  then obtain l where e: "e = Executor (Inr l)"
    by (cases e rule: no_failure.cases) auto
  with Cons show ?case by (simp add: listed_def)
qed

lemma Run_first_failure:
  "\<forall>e\<in>set es1. no_failure e \<Longrightarrow> executors m = es1 @ Executor (Inl err) # es2 \<Longrightarrow>
   Run m s = (Some err, m\<lparr>handlers := handlers m @ listed es1\<rparr>, s)"
  by (simp add: Run_def initHandlers_def collect_first_failure)


section \<open>The claims\<close>

subsection \<open>C1: a failing unit\<close>

text \<open>
  C1, as amended. Three handlers with indices 1, 2 and 3, however they are spread over
  the executors; the action of index 1 succeeds and the action of index 2 then fails
  with \<open>err\<close>; the checkpoint is at version 0 (no table, no row, or the row
  \<^verbatim>\<open>version = 0, dirty = false\<close>) and the database has no fault. Then the log of \<^verbatim>\<open>Run\<close> is:
  action 1, version written as 1, action 2 failing, \<^verbatim>\<open>version = 2, dirty = true\<close>
  written. The action of index 3 is not invoked, the table ends with the row
  \<^verbatim>\<open>version = 2, dirty = true\<close>, and \<^verbatim>\<open>Run\<close> returns \<open>err\<close> itself, the error of the action
  as the action returned it.
\<close>

theorem failing_unit_stops_the_run:
  assumes "collect (executors m) (handlers m) = (None, hs)"
    and "mset hs = {#h1, h2, h3#}"
    and "GetIndex h1 = 1" and "GetIndex h2 = 2" and "GetIndex h3 = 3"
    and "Exec h1 (world s) = (None, w1)"
    and "Exec h2 w1 = (Some err, w2)"
    and "table (db s) = None \<or> table (db s) = Some [] \<or>
         table (db s) = Some [\<lparr>version = 0, dirty = False\<rparr>]"
    and "\<forall>n. faults (db s) n = None"
    and "events s = []"
  shows "fst (Run m s) = Some err \<and>
         events (snd (snd (Run m s))) =
           [Executed 1 None, Wrote (UpdateSchema 1) None,
            Executed 2 (Some err), Wrote (UpdateDirty 2 True) None] \<and>
         table (db (snd (snd (Run m s)))) = Some [\<lparr>version = 2, dirty = True\<rparr>] \<and>
         world (snd (snd (Run m s))) = w2"
proof -
  have m3: "mset hs = mset [h1, h2, h3]" using assms(2) by simp
  then have "set hs = set [h1, h2, h3]" by (rule mset_eq_setD)
  then have inj: "inj_on (\<lambda>h. sint (GetIndex h)) (set hs)"
    using assms(3,4,5) by (auto simp: inj_on_def)
  have "sorted (map (\<lambda>h. sint (GetIndex h)) [h1, h2, h3])"
    using assms(3,4,5) by simp
  with m3 inj have so: "sort_Slice hs = [h1, h2, h3]"
    unfolding sort_Slice_def by (rule sort_key_inj_key_eq)
  have chk: "check_index [h1, h2, h3] = None"
    using assms(3,4,5) by simp
  have init: "initHandlers m = (None, m\<lparr>handlers := [h1, h2, h3]\<rparr>)"
    using assms(1) so chk by (simp add: initHandlers_def Let_def)
  from assms(8) show ?thesis
  proof (elim disjE)
    assume "table (db s) = None"
    with init assms(3-7,9,10) show ?thesis
      by (simp add: Run_def db_Exec_def db_Query_def rows_Scan_def initAndGetSchema_def)
  next
    assume "table (db s) = Some []"
    with init assms(3-7,9,10) show ?thesis
      by (simp add: Run_def db_Exec_def db_Query_def rows_Scan_def initAndGetSchema_def)
  next
    assume "table (db s) = Some [\<lparr>version = 0, dirty = False\<rparr>]"
    with init assms(3-7,9,10) show ?thesis
      by (simp add: Run_def db_Exec_def db_Query_def rows_Scan_def initAndGetSchema_def)
  qed
qed

theorem failing_unit_stops_the_run_witness:
  "fst (Run (orchestrator [[ok_unit 3, ok_unit 1], [bad_unit 2]]) (start fresh_db)) =
     Some (External ''boom'') \<and>
   events (snd (snd (Run (orchestrator [[ok_unit 3, ok_unit 1], [bad_unit 2]]) (start fresh_db)))) =
     [Executed 1 None, Wrote (UpdateSchema 1) None,
      Executed 2 (Some (External ''boom'')), Wrote (UpdateDirty 2 True) None] \<and>
   table (db (snd (snd (Run (orchestrator [[ok_unit 3, ok_unit 1], [bad_unit 2]]) (start fresh_db))))) =
     Some [\<lparr>version = 2, dirty = True\<rparr>] \<and>
   world (snd (snd (Run (orchestrator [[ok_unit 3, ok_unit 1], [bad_unit 2]]) (start fresh_db)))) = 1"
proof -
  let ?m = "orchestrator [[ok_unit 3, ok_unit 1], [bad_unit 2]]"
  let ?s = "start fresh_db"
  have c: "collect (executors ?m) (handlers ?m) = (None, [ok_unit 3, ok_unit 1, bad_unit 2])"
    by (simp add: example_defs)
  have p: "mset [ok_unit 3, ok_unit 1, bad_unit 2] = {#ok_unit 1, bad_unit 2, ok_unit 3#}"
    by simp
  have i1: "GetIndex (ok_unit 1) = 1" and i2: "GetIndex (bad_unit 2) = 2"
    and i3: "GetIndex (ok_unit 3) = 3"
    by (simp_all add: example_defs)
  have e1: "Exec (ok_unit 1) (world ?s) = (None, 1)" by (simp add: example_defs)
  have e2: "Exec (bad_unit 2) 1 = (Some (External ''boom''), 1)" by (simp add: example_defs)
  have t: "table (db ?s) = None \<or> table (db ?s) = Some [] \<or>
         table (db ?s) = Some [\<lparr>version = 0, dirty = False\<rparr>]"
    by (simp add: example_defs)
  have f: "\<forall>n. faults (db ?s) n = None" by (simp add: example_defs)
  have ev: "events ?s = []" by (simp add: example_defs)
  from failing_unit_stops_the_run [OF c p i1 i2 i3 e1 e2 t f ev] show ?thesis .
qed

text \<open>
  C1 as stated fails in its last part: the error \<^verbatim>\<open>Run\<close> returns is not wrapped and
  carries no index. The action of index 2 returns the error \<open>External ''boom''\<close>, and
  \<^verbatim>\<open>Run\<close> returns exactly that value.
\<close>

theorem action_error_not_wrapped_counterexample:
  "fst (Exec (bad_unit 2) 1) = Some (External ''boom'') \<and>
   fst (Run (orchestrator [[ok_unit 3, ok_unit 1], [bad_unit 2]]) (start fresh_db)) =
     Some (External ''boom'') \<and>
   2 \<notin> set (carried_indices (External ''boom''))"
  by (simp add: example_defs Run_defs)

subsection \<open>C2: running twice\<close>

text \<open>
  C2 fails on the code. One executor with one handler of index 1, whose action
  succeeds, on a fresh database: the first \<^verbatim>\<open>Run\<close> succeeds and leaves
  \<^verbatim>\<open>version = 1, dirty = false\<close> and one handler in \<^verbatim>\<open>m.handlers\<close>. The second \<^verbatim>\<open>Run\<close> on
  the same orchestrator appends the executor's handler to \<^verbatim>\<open>m.handlers\<close> again and
  returns \<^verbatim>\<open>ErrDuplicateIndexFormat\<close> for index 1.
\<close>

theorem second_Run_finds_duplicates:
  "fst (Run (orchestrator [[ok_unit 1]]) (start fresh_db)) = None \<and>
   table (db (snd (snd (Run (orchestrator [[ok_unit 1]]) (start fresh_db))))) =
     Some [\<lparr>version = 1, dirty = False\<rparr>] \<and>
   map GetIndex (handlers (fst (snd (Run (orchestrator [[ok_unit 1]]) (start fresh_db))))) = [1] \<and>
   fst (Run (fst (snd (Run (orchestrator [[ok_unit 1]]) (start fresh_db))))
            (snd (snd (Run (orchestrator [[ok_unit 1]]) (start fresh_db))))) =
     Some (Errorf ErrDuplicateIndexFormat 1) \<and>
   map GetIndex (handlers (fst (snd
       (Run (fst (snd (Run (orchestrator [[ok_unit 1]]) (start fresh_db))))
            (snd (snd (Run (orchestrator [[ok_unit 1]]) (start fresh_db)))))))) = [1, 1]"
proof -
  let ?m1 = "\<lparr>executors = [Executor (Inr [ok_unit 1])], handlers = [ok_unit 1]\<rparr>"
  let ?s1 = "\<lparr>db = \<lparr>table = Some [\<lparr>version = 1, dirty = False\<rparr>], faults = no_faults, calls = 4\<rparr>,
      world = 1, events = [Executed 1 None, Wrote (UpdateSchema 1) None]\<rparr>"
  have first: "Run (orchestrator [[ok_unit 1]]) (start fresh_db) = (None, ?m1, ?s1)"
    by (simp add: example_defs Run_defs Let_def)
  have second: "Run ?m1 ?s1 =
      (Some (Errorf ErrDuplicateIndexFormat 1),
       \<lparr>executors = [Executor (Inr [ok_unit 1])], handlers = [ok_unit 1, ok_unit 1]\<rparr>, ?s1)"
    by (simp add: example_defs Run_defs Let_def)
  show ?thesis unfolding first fst_conv snd_conv second
    by (simp add: example_defs)
qed

subsection \<open>C3: a source that cannot enumerate\<close>

text \<open>
  C3 fails on the code. \<^verbatim>\<open>Run\<close> does return the error of the first executor that
  reports one, before anything else happens (\<open>Run_first_failure\<close>). But when the source
  directory of a \<^verbatim>\<open>sqlExecutor\<close> cannot be read, \<^verbatim>\<open>getFilesByDir\<close> returns the error,
  \<^verbatim>\<open>ListHandlers\<close> returns no handler and no error, and \<^verbatim>\<open>Run\<close> with that executor
  succeeds.
\<close>

theorem unreadable_dir_not_reported:
  "getFilesByDir missing (sourceDir (NewSQLExecutor conn ''./nowhere'')) =
     Inl (External ''open: no such file or directory'') \<and>
   fst (sqlExecutor_ListHandlers missing (NewSQLExecutor conn ''./nowhere'')) = (None, []) \<and>
   fst (Run \<lparr>executors = [answer (fst (sqlExecutor_ListHandlers missing (NewSQLExecutor conn ''./nowhere'')))],
             handlers = []\<rparr> (start fresh_db)) = None"
  by (simp add: example_defs Run_defs getFilesByDir_def missing_def no_dir_def NewSQLExecutor_def
      sqlExecutor_ListHandlers_def sqlExecutor_initHandlers_def answer_def)

subsection \<open>C4: what the index check accepts\<close>

text \<open>
  C4, as amended. When every executor answers, \<^verbatim>\<open>initHandlers\<close> accepts the collected
  handlers exactly when their sorted indices are consecutive integers \<open>a, a + 1, ...\<close>
  from some first index \<open>a\<close>: each index is one more than the one before it. The first
  index itself is not checked.
\<close>

theorem initHandlers_accepts_consecutive:
  assumes "collect (executors m) (handlers m) = (None, hs)"
  shows "(fst (initHandlers m) = None) =
         (\<exists>a. sort (signed_indices hs) = [a .. a + int (length hs) - 1])"
  using assms by (simp add: initHandlers_def Let_def check_index_sort_Slice)

theorem initHandlers_accepts_consecutive_witness:
  "collect (executors (orchestrator [[ok_unit 6], [ok_unit 5]]))
      (handlers (orchestrator [[ok_unit 6], [ok_unit 5]])) = (None, [ok_unit 6, ok_unit 5]) \<and>
   fst (initHandlers (orchestrator [[ok_unit 6], [ok_unit 5]])) = None \<and>
   sort (signed_indices [ok_unit 6, ok_unit 5 :: nat handler]) = [5 .. 5 + int (length [ok_unit 6, ok_unit 5 :: nat handler]) - 1]"
proof -
  have c: "collect (executors (orchestrator [[ok_unit 6], [ok_unit 5]]))
      (handlers (orchestrator [[ok_unit 6], [ok_unit 5]])) = (None, [ok_unit 6, ok_unit 5])"
    by (simp add: example_defs)
  have s: "sort (signed_indices [ok_unit 6, ok_unit 5 :: nat handler]) = [5 .. 5 + int (length [ok_unit 6, ok_unit 5 :: nat handler]) - 1]"
    by (simp add: signed_indices_def example_defs upto_rec1)
  from initHandlers_accepts_consecutive [OF c] s
  have "fst (initHandlers (orchestrator [[ok_unit 6], [ok_unit 5]])) = None" by blast
  with c s show ?thesis by blast
qed

text \<open>
  C4 as stated fails: the handlers with indices 5 and 6 are accepted although the first
  index is not 1, and \<^verbatim>\<open>Run\<close> goes on to execute both.
\<close>

theorem first_index_unchecked_counterexample:
  "fst (initHandlers (orchestrator [[ok_unit 6], [ok_unit 5]])) = None \<and>
   map GetIndex (handlers (snd (initHandlers (orchestrator [[ok_unit 6], [ok_unit 5]])))) = [5, 6] \<and>
   fst (Run (orchestrator [[ok_unit 6], [ok_unit 5]]) (start fresh_db)) = None \<and>
   executed (events (snd (snd (Run (orchestrator [[ok_unit 6], [ok_unit 5]]) (start fresh_db))))) = [5, 6]"
  by (simp add: example_defs Run_defs)

subsection \<open>C5: duplicate indices and gaps\<close>

text \<open>
  C5. \<^verbatim>\<open>Run\<close> sorts the collected handlers and walks the adjacent pairs. At the first
  pair whose gap is not 1 (position \<open>i\<close>, every pair before it having gap 1): a gap of 0
  makes \<^verbatim>\<open>Run\<close> return \<^verbatim>\<open>ErrDuplicateIndexFormat\<close> with the index of that pair, a
  gap greater than 1 makes it return \<^verbatim>\<open>ErrIndexGapLargeFormat\<close> with the index before
  the gap. In both cases the state is the initial one: no action was invoked and the
  database was not touched.
\<close>

theorem index_errors_before_any_action:
  assumes "collect (executors m) (handlers m) = (None, hs)"
    and "Suc i < length hs"
    and "\<forall>j<i. gap (sort_Slice hs) j = 1"
  shows "(gap (sort_Slice hs) i = 0 \<longrightarrow>
            Run m s = (Some (Errorf ErrDuplicateIndexFormat (GetIndex (sort_Slice hs ! i))),
                       m\<lparr>handlers := sort_Slice hs\<rparr>, s)) \<and>
         (1 < gap (sort_Slice hs) i \<longrightarrow>
            Run m s = (Some (Errorf ErrIndexGapLargeFormat (GetIndex (sort_Slice hs ! i))),
                       m\<lparr>handlers := sort_Slice hs\<rparr>, s))"
proof -
  have "Suc i < length (sort_Slice hs)" using assms(2) by (simp add: sort_Slice_def)
  from check_index_first_bad [OF this assms(3)] assms(1) show ?thesis
    by (simp add: Run_def initHandlers_def Let_def)
qed

theorem index_errors_before_any_action_witness:
  "Run (orchestrator [[ok_unit 3, ok_unit 1, ok_unit 2], [ok_unit 3]]) (start fresh_db) =
     (Some (Errorf ErrDuplicateIndexFormat 3),
      (orchestrator [[ok_unit 3, ok_unit 1, ok_unit 2], [ok_unit 3]])
        \<lparr>handlers := [ok_unit 1, ok_unit 2, ok_unit 3, ok_unit 3]\<rparr>,
      start fresh_db) \<and>
   Run (orchestrator [[ok_unit 4, ok_unit 1], [ok_unit 2]]) (start fresh_db) =
     (Some (Errorf ErrIndexGapLargeFormat 2),
      (orchestrator [[ok_unit 4, ok_unit 1], [ok_unit 2]])
        \<lparr>handlers := [ok_unit 1, ok_unit 2, ok_unit 4]\<rparr>,
      start fresh_db)"
proof -
  let ?m = "orchestrator [[ok_unit 3, ok_unit 1, ok_unit 2], [ok_unit 3]]"
  let ?hs = "[ok_unit 3, ok_unit 1, ok_unit 2, ok_unit 3 :: nat handler]"
  have c: "collect (executors ?m) (handlers ?m) = (None, ?hs)" by (simp add: example_defs)
  have so: "sort_Slice ?hs = [ok_unit 1, ok_unit 2, ok_unit 3, ok_unit 3]"
    by (simp add: sort_Slice_def example_defs)
  have l: "Suc 2 < length ?hs" by simp
  have p: "\<forall>j<2. gap (sort_Slice ?hs) j = 1"
    unfolding so all_less_2 by (simp add: gap_def example_defs)
  have g: "gap (sort_Slice ?hs) 2 = 0"
    unfolding so by (simp add: gap_def example_defs)
  let ?m2 = "orchestrator [[ok_unit 4, ok_unit 1], [ok_unit 2]]"
  let ?hs2 = "[ok_unit 4, ok_unit 1, ok_unit 2 :: nat handler]"
  have c2: "collect (executors ?m2) (handlers ?m2) = (None, ?hs2)" by (simp add: example_defs)
  have so2: "sort_Slice ?hs2 = [ok_unit 1, ok_unit 2, ok_unit 4]"
    by (simp add: sort_Slice_def example_defs)
  have l2: "Suc 1 < length ?hs2" by simp
  have p2: "\<forall>j<1. gap (sort_Slice ?hs2) j = 1"
    unfolding so2 all_less_1 by (simp add: gap_def example_defs)
  have g2: "1 < gap (sort_Slice ?hs2) 1"
    unfolding so2 by (simp add: gap_def example_defs)
  from index_errors_before_any_action [OF c l p, of "start fresh_db"] g
    index_errors_before_any_action [OF c2 l2 p2, of "start fresh_db"] g2
  show ?thesis unfolding so so2 by (simp add: example_defs)
qed

subsection \<open>C6: a dirty checkpoint\<close>



subsection \<open>C7: a checkpoint beyond the handlers\<close>

text \<open>
  C7. When the handlers pass the index check, the loaded row is clean and its version
  is greater than the number of handlers, \<^verbatim>\<open>Run\<close> returns
  \<^verbatim>\<open>ErrIndexLessDatabaseVersion\<close>; the state differs from the initial one only in the
  count of database calls, so no action was invoked and nothing was written.
\<close>

theorem stale_checkpoint_rejected:
  assumes "initHandlers m = (None, m')"
    and "table (db s) = Some (r # rs)" and "\<not> dirty r"
    and "faults (db s) (calls (db s)) = None"
    and "faults (db s) (Suc (calls (db s))) = None"
    and "faults (db s) (Suc (Suc (calls (db s)))) = None"
    and "int (length (handlers m')) < sint (version r)"
  shows "Run m s = (Some ErrIndexLessDatabaseVersion, m',
           s\<lparr>db := (db s)\<lparr>calls := Suc (Suc (Suc (calls (db s))))\<rparr>\<rparr>)"
  using assms
  by (simp add: Run_def db_Exec_def db_Query_def rows_Scan_def initAndGetSchema_def Let_def)

theorem stale_checkpoint_rejected_witness:
  "initHandlers (orchestrator [[ok_unit 3, ok_unit 1], [ok_unit 2]]) =
     (None, (orchestrator [[ok_unit 3, ok_unit 1], [ok_unit 2]])\<lparr>handlers := [ok_unit 1, ok_unit 2, ok_unit 3]\<rparr>) \<and>
   int (length [ok_unit 1, ok_unit 2, ok_unit 3 :: nat handler]) < sint (version \<lparr>version = 5, dirty = False\<rparr>) \<and>
   Run (orchestrator [[ok_unit 3, ok_unit 1], [ok_unit 2]]) (start (db_with [\<lparr>version = 5, dirty = False\<rparr>])) =
     (Some ErrIndexLessDatabaseVersion,
      (orchestrator [[ok_unit 3, ok_unit 1], [ok_unit 2]])\<lparr>handlers := [ok_unit 1, ok_unit 2, ok_unit 3]\<rparr>,
      (start (db_with [\<lparr>version = 5, dirty = False\<rparr>]))\<lparr>db := (db_with [\<lparr>version = 5, dirty = False\<rparr>])\<lparr>calls := 3\<rparr>\<rparr>)"
proof -
  let ?s = "start (db_with [\<lparr>version = 5, dirty = False\<rparr>])"
  let ?m = "orchestrator [[ok_unit 3, ok_unit 1], [ok_unit 2]]"
  let ?m' = "?m\<lparr>handlers := [ok_unit 1, ok_unit 2, ok_unit 3]\<rparr>"
  have i: "initHandlers ?m = (None, ?m')" by (simp add: example_defs Run_defs)
  have t: "table (db ?s) = Some [\<lparr>version = 5, dirty = False\<rparr>]" by (simp add: example_defs)
  have d: "\<not> dirty \<lparr>version = 5, dirty = False\<rparr>" by simp
  have f0: "faults (db ?s) (calls (db ?s)) = None" by (simp add: example_defs)
  have f1: "faults (db ?s) (Suc (calls (db ?s))) = None" by (simp add: example_defs)
  have f2: "faults (db ?s) (Suc (Suc (calls (db ?s)))) = None" by (simp add: example_defs)
  have l: "int (length (handlers ?m')) < sint (version \<lparr>version = 5, dirty = False\<rparr>)" by simp
  from stale_checkpoint_rejected [OF i t d f0 f1 f2 l] i l show ?thesis
    by (simp add: start_def db_with_def)
qed

subsection \<open>C8: the order of registration\<close>



subsection \<open>C9: the dirty mark cannot be written\<close>



subsection \<open>C10: advancing the checkpoint\<close>

text \<open>
  C10. The update after a successful action (\<^verbatim>\<open>UPDATE ... SET version = ?\<close>) leaves the
  dirty flag of every row as it was and, when it succeeds, sets the version of every
  row to the index it was given. A first run (the schema table absent or empty, no
  database fault) over handlers whose indices are 1, ..., \<open>N\<close>, however they are spread
  over the executors, all of whose actions succeed, returns no error; its log is, for
  each index from 1 to \<open>N\<close> in turn, the action followed by the update of the version to
  that index; and it leaves the single row \<^verbatim>\<open>version = N, dirty = false\<close>.
\<close>

theorem advance_writes_version_only:
  assumes "\<forall>e\<in>set (executors m). no_failure e"
    and "mset (map GetIndex (handlers m @ listed (executors m))) = mset (map word_of_nat [1..<Suc N])"
    and "N < 2 ^ 63"
    and "\<forall>h\<in>set (handlers m @ listed (executors m)). \<forall>w. fst (Exec h w) = None"
    and "table (db s) = None \<or> table (db s) = Some []"
    and "\<forall>n. faults (db s) n = None"
    and "events s = []"
  shows "map_option (map dirty) (table (snd (db_Exec (UpdateSchema i) d))) =
           map_option (map dirty) (table d) \<and>
         (fst (db_Exec (UpdateSchema i) d) = None \<longrightarrow>
           map_option (map version) (table (snd (db_Exec (UpdateSchema i) d))) =
           map_option (map (\<lambda>r. i)) (table d)) \<and>
         fst (Run m s) = None \<and>
         events (snd (snd (Run m s))) = advances (map word_of_nat [1..<Suc N]) \<and>
         table (db (snd (snd (Run m s)))) = Some [\<lparr>version = word_of_nat N, dirty = False\<rparr>]"
proof -
  let ?hs = "handlers m @ listed (executors m)"
  let ?xs = "sort_Slice ?hs"
  have frame: "map_option (map dirty) (table (snd (db_Exec (UpdateSchema i) d))) =
           map_option (map dirty) (table d)"
    by (cases "table d") (auto simp: db_Exec_def Let_def comp_def split: option.splits)
  have vers: "fst (db_Exec (UpdateSchema i) d) = None \<longrightarrow>
           map_option (map version) (table (snd (db_Exec (UpdateSchema i) d))) =
           map_option (map (\<lambda>r. i)) (table d)"
    by (cases "table d") (auto simp: db_Exec_def Let_def comp_def split: option.splits)
  have col: "collect (executors m) (handlers m) = (None, ?hs)"
    using assms(1) by (rule collect_listed)
  have idx: "map GetIndex ?xs = map word_of_nat [1..<Suc N]"
    using assms(2,3) by (rule sort_Slice_one_to_N)
  have chk: "check_index ?xs = None"
    using assms(2,3) by (rule check_index_one_to_N)
  have init: "initHandlers m = (None, m\<lparr>handlers := ?xs\<rparr>)"
    using col chk by (simp add: initHandlers_def Let_def)
  let ?row = "\<lparr>version = 0, dirty = False\<rparr>"
  let ?d2 = "(db s)\<lparr>calls := Suc (Suc (Suc (calls (db s)))), table := Some [?row]\<rparr>"
  have create: "db_Exec CreateSchemaTable (db s) =
      (None, (db s)\<lparr>calls := Suc (calls (db s)), table := Some []\<rparr>)"
    using assms(5,6) by (auto simp: db_Exec_def)
  have load: "initAndGetSchema ((db s)\<lparr>calls := Suc (calls (db s)), table := Some []\<rparr>) = (Inr ?row, ?d2)"
    using assms(6) by (simp add: initAndGetSchema_def db_Query_def db_Exec_def)
  let ?s2 = "s\<lparr>db := ?d2\<rparr>"
  have run: "Run m s = (case exec_loop ?xs ?s2 of (err, s') \<Rightarrow> (err, m\<lparr>handlers := ?xs\<rparr>, s'))"
    using init create load by (simp add: Run_def)
  have p1: "\<forall>h\<in>set ?xs. \<forall>w. fst (Exec h w) = None"
    using assms(4) by (simp add: sort_Slice_def)
  have p2: "\<forall>n. faults (db ?s2) n = None" using assms(6) by simp
  have p3: "table (db ?s2) = Some [?row]" by simp
  from exec_loop_success [OF p1 p2 p3] obtain s' where
    loop: "exec_loop ?xs ?s2 = (None, s')"
    and tab: "table (db s') = Some (if ?xs = [] then [?row] else map (\<lambda>r. r\<lparr>version := GetIndex (last ?xs)\<rparr>) [?row])"
    and evs: "events s' = events ?s2 @ advances (map GetIndex ?xs)"
    by blast
  have final: "table (db s') = Some [\<lparr>version = word_of_nat N, dirty = False\<rparr>]"
  proof (cases "N = 0")
    case True
    with idx have "?xs = []" by simp
    with tab True show ?thesis by simp
  next
    case False
    with idx have ne: "?xs \<noteq> []" by auto
    then have "GetIndex (last ?xs) = last (map GetIndex ?xs)" by (simp add: last_map)
    also have "\<dots> = word_of_nat N" unfolding idx using False by simp
    finally show ?thesis using tab ne by simp
  qed
  from run loop evs final assms(7) idx frame vers show ?thesis by simp
qed

theorem advance_writes_version_only_witness:
  "fst (Run (orchestrator [[ok_unit 3, ok_unit 1], [ok_unit 2]]) (start fresh_db)) = None \<and>
   events (snd (snd (Run (orchestrator [[ok_unit 3, ok_unit 1], [ok_unit 2]]) (start fresh_db)))) =
     [Executed 1 None, Wrote (UpdateSchema 1) None, Executed 2 None, Wrote (UpdateSchema 2) None,
      Executed 3 None, Wrote (UpdateSchema 3) None] \<and>
   table (db (snd (snd (Run (orchestrator [[ok_unit 3, ok_unit 1], [ok_unit 2]]) (start fresh_db))))) =
     Some [\<lparr>version = 3, dirty = False\<rparr>] \<and>
   map_option (map dirty) (table (snd (db_Exec (UpdateSchema 7) (db_with [\<lparr>version = 6, dirty = True\<rparr>])))) =
     Some [True] \<and>
   map_option (map version) (table (snd (db_Exec (UpdateSchema 7) (db_with [\<lparr>version = 6, dirty = True\<rparr>])))) =
     Some [7]"
proof -
  let ?m = "orchestrator [[ok_unit 3, ok_unit 1], [ok_unit 2]]"
  let ?s = "start fresh_db"
  have a1: "\<forall>e\<in>set (executors ?m). no_failure e" by (simp add: example_defs)
  have l: "handlers ?m @ listed (executors ?m) = [ok_unit 3, ok_unit 1, ok_unit 2]"
    by (simp add: example_defs listed_def)
  have u: "[1..<Suc 3] = [1, 2, 3]" by (simp add: upt_rec)
  have a2: "mset (map GetIndex (handlers ?m @ listed (executors ?m))) = mset (map word_of_nat [1..<Suc 3])"
    unfolding l u by (simp add: example_defs)
  have a3: "(3::nat) < 2 ^ 63" by simp
  have a4: "\<forall>h\<in>set (handlers ?m @ listed (executors ?m)). \<forall>w. fst (Exec h w) = None"
    unfolding l by (simp add: example_defs)
  have a5: "table (db ?s) = None \<or> table (db ?s) = Some []" by (simp add: example_defs)
  have a6: "\<forall>n. faults (db ?s) n = None" by (simp add: example_defs)
  have a7: "events ?s = []" by (simp add: example_defs)
  have f: "fst (db_Exec (UpdateSchema 7) (db_with [\<lparr>version = 6, dirty = True\<rparr>])) = None"
    by (simp add: example_defs db_Exec_def)
  from advance_writes_version_only [OF a1 a2 a3 a4 a5 a6 a7, of 7 "db_with [\<lparr>version = 6, dirty = True\<rparr>]"] f
  show ?thesis unfolding u by (simp add: advances_simps db_with_def)
qed

end
